theory Spec2Isabelle
  imports Main
begin

section \<open>Text primitives of the response generator\<close>

text \<open>
  The response generator (\<^verbatim>\<open>nl_response_generator.py\<close>) works on Python strings.
  They are embedded as \<^typ>\<open>string\<close>, a character being a Unicode code point below
  256 (the range of \<^typ>\<open>char\<close>: ASCII and Latin-1), and the length of a string the
  number of its code points, as Python's \<^verbatim>\<open>len\<close>. On these characters the
  operations below are Python's \<^verbatim>\<open>str.lower\<close>, \<^verbatim>\<open>in\<close>, \<^verbatim>\<open>str.startswith\<close>,
  \<^verbatim>\<open>str.find\<close>, \<^verbatim>\<open>str.split\<close>, \<^verbatim>\<open>str.strip\<close>, \<^verbatim>\<open>str.ljust\<close>,
  \<^verbatim>\<open>str.join\<close>, \<^verbatim>\<open>str.replace\<close>, \<^verbatim>\<open>str.title\<close> and \<^verbatim>\<open>str(int)\<close>.
\<close>

datatype py_error = IndexError | ValueError

text \<open>
  The upper-case letters (\<^verbatim>\<open>str.isupper\<close>) are A to Z and U+00C0 to U+00DE without
  the multiplication sign U+00D7; \<^verbatim>\<open>str.lower\<close> moves each of them up by 32 and
  leaves every other character as it is. The lower-case letters (\<^verbatim>\<open>str.islower\<close>)
  are a to z, U+00AA, U+00B5, U+00BA and U+00DF to U+00FF without the division sign
  U+00F7.
\<close>

definition is_upper :: "char \<Rightarrow> bool" where
  "is_upper c \<longleftrightarrow>
     (65 \<le> (of_char c :: nat) \<and> (of_char c :: nat) \<le> 90)
     \<or> (192 \<le> (of_char c :: nat) \<and> (of_char c :: nat) \<le> 214)
     \<or> (216 \<le> (of_char c :: nat) \<and> (of_char c :: nat) \<le> 222)"

definition is_lower :: "char \<Rightarrow> bool" where
  "is_lower c \<longleftrightarrow>
     (97 \<le> (of_char c :: nat) \<and> (of_char c :: nat) \<le> 122)
     \<or> (of_char c :: nat) = 170 \<or> (of_char c :: nat) = 181 \<or> (of_char c :: nat) = 186
     \<or> (223 \<le> (of_char c :: nat) \<and> (of_char c :: nat) \<le> 246)
     \<or> (248 \<le> (of_char c :: nat) \<and> (of_char c :: nat) \<le> 255)"

definition lower_char :: "char \<Rightarrow> char" where
  "lower_char c = (if is_upper c then char_of (of_char c + 32 :: nat) else c)"

definition lower :: "string \<Rightarrow> string" where
  "lower s = map lower_char s"

definition startswith :: "string \<Rightarrow> string \<Rightarrow> bool" where
  "startswith s p \<longleftrightarrow> take (length p) s = p"

text \<open>\<^verbatim>\<open>sub in s\<close>: \<open>sub\<close> occurs in \<open>s\<close> as a contiguous substring.\<close>

fun contains :: "string \<Rightarrow> string \<Rightarrow> bool" where
  "contains [] sub \<longleftrightarrow> sub = []"
| "contains (c # cs) sub \<longleftrightarrow> startswith (c # cs) sub \<or> contains cs sub"

text \<open>\<^verbatim>\<open>s.find(sub)\<close>: the lowest index at which \<open>sub\<close> occurs, \<open>None\<close> for -1.\<close>

fun py_find :: "string \<Rightarrow> string \<Rightarrow> nat option" where
  "py_find [] sub = (if sub = [] then Some 0 else None)"
| "py_find (c # cs) sub =
     (if startswith (c # cs) sub then Some 0 else map_option Suc (py_find cs sub))"

lemma py_find_bound: "py_find s sub = Some i \<Longrightarrow> i + length sub \<le> length s"
proof (induction s arbitrary: i)
  case Nil
  then show ?case by (simp split: if_splits)
next
  case (Cons c cs)
  show ?case
  proof (cases "startswith (c # cs) sub")
    case True
    then have "length (take (length sub) (c # cs)) = length sub"
      unfolding startswith_def by simp
    then have "length sub \<le> length (c # cs)"
      by simp
    with True Cons.prems show ?thesis by simp
  next
    case False
    with Cons.prems obtain j where "py_find cs sub = Some j" "i = Suc j"
      by auto
    with Cons.IH show ?thesis by auto
  qed
qed

text \<open>
  \<^verbatim>\<open>s.split(sep)\<close>: the pieces of \<open>s\<close> between the non-overlapping occurrences of
  \<open>sep\<close>, found from the left. Python raises \<^verbatim>\<open>ValueError\<close> on an empty separator.
\<close>

function split_parts :: "string \<Rightarrow> string \<Rightarrow> string list" where
  "split_parts sep s =
     (if sep = [] then [s]
      else case py_find s sep of
             None \<Rightarrow> [s]
           | Some i \<Rightarrow> take i s # split_parts sep (drop (i + length sep) s))"
  by pat_completeness auto
termination
proof (relation "measure (\<lambda>(sep, s). length s)")
  show "wf (measure (\<lambda>(sep, s). length s))" by simp
next
  fix sep s :: string and i :: nat
  assume "sep \<noteq> []" and "py_find s sep = Some i"
  then have a: "i + length sep \<le> length s" and b: "0 < length sep"
    using py_find_bound [of s sep i] by simp_all
  have "length s - (i + length sep) < length s"
    using a b by arith
  then show "((sep, drop (i + length sep) s), (sep, s)) \<in> measure (\<lambda>(sep, s). length s)"
    by simp
qed

declare split_parts.simps [simp del]

definition py_split :: "string \<Rightarrow> string \<Rightarrow> py_error + string list" where
  "py_split s sep = (if sep = [] then Inl ValueError else Inr (split_parts sep s))"

text \<open>
  The whitespace of \<^verbatim>\<open>str.strip\<close>: U+0009 to U+000D, U+001C to U+0020, the next-line
  control U+0085 and the no-break space U+00A0.
\<close>

definition is_space :: "char \<Rightarrow> bool" where
  "is_space c \<longleftrightarrow>
     (9 \<le> (of_char c :: nat) \<and> (of_char c :: nat) \<le> 13)
     \<or> (28 \<le> (of_char c :: nat) \<and> (of_char c :: nat) \<le> 32)
     \<or> (of_char c :: nat) = 133 \<or> (of_char c :: nat) = 160"

definition strip :: "string \<Rightarrow> string" where
  "strip s = rev (dropWhile is_space (rev (dropWhile is_space s)))"

definition ljust :: "string \<Rightarrow> nat \<Rightarrow> string" where
  "ljust s w = s @ replicate (w - length s) CHR '' ''"

fun join :: "string \<Rightarrow> string list \<Rightarrow> string" where
  "join sep [] = []"
| "join sep [x] = x"
| "join sep (x # y # ys) = x @ sep @ join sep (y # ys)"

definition replace_char :: "char \<Rightarrow> char \<Rightarrow> string \<Rightarrow> string" where
  "replace_char old new s = map (\<lambda>c. if c = old then new else c) s"

text \<open>
  \<^verbatim>\<open>s.title()\<close>: a character that follows a letter is lower-cased, any other
  character is title-cased; the flag says whether the previous character was a letter
  (upper-case or lower-case). The title case of a lower-case letter is the letter 32
  below it, and "Ss" for the sharp s U+00DF. The title-case forms of the micro sign
  U+00B5 and of U+00FF are U+039C and U+0178, beyond the characters of this embedding:
  these two are left as they are.
\<close>

definition title_char :: "char \<Rightarrow> string" where
  "title_char c =
     (if (of_char c :: nat) = 223 then ''Ss''
      else if (97 \<le> (of_char c :: nat) \<and> (of_char c :: nat) \<le> 122)
              \<or> (224 \<le> (of_char c :: nat) \<and> (of_char c :: nat) \<le> 246)
              \<or> (248 \<le> (of_char c :: nat) \<and> (of_char c :: nat) \<le> 254)
        then [char_of (of_char c - 32 :: nat)]
      else [c])"

fun title_from :: "bool \<Rightarrow> string \<Rightarrow> string" where
  "title_from prev [] = []"
| "title_from prev (c # cs) =
     (if prev then [lower_char c] else title_char c)
     @ title_from (is_upper c \<or> is_lower c) cs"

definition title :: "string \<Rightarrow> string" where
  "title s = title_from False s"

definition digit_char :: "nat \<Rightarrow> char" where
  "digit_char d = char_of (48 + d)"

fun str_nat :: "nat \<Rightarrow> string" where
  "str_nat n = (if n < 10 then [digit_char n] else str_nat (n div 10) @ [digit_char (n mod 10)])"

declare str_nat.simps [simp del]

definition str_int :: "int \<Rightarrow> string" where
  "str_int k = (if k < 0 then CHR ''-'' # str_nat (nat (- k)) else str_nat (nat k))"

definition nl :: string where
  "nl = [CHR 0x0A]"

text \<open>\<^verbatim>\<open>xs[:k]\<close>: a negative bound counts from the end.\<close>

definition slice_to :: "'a list \<Rightarrow> int \<Rightarrow> 'a list" where
  "slice_to xs k = (if k < 0 then take (length xs - nat (- k)) xs else take (nat k) xs)"

section \<open>Scalars and their formatting\<close>

text \<open>
  A cell of a result row. A float is carried by Python's \<^verbatim>\<open>str\<close> of it, which
  determines it; a value of any other class by its \<^verbatim>\<open>str\<close> and by whether it
  compares equal to 0 and to 1 (a \<^verbatim>\<open>Decimal\<close>, a \<^verbatim>\<open>bool\<close>), the only other
  observations the generator makes of a cell.
\<close>

datatype scalar =
    SNone
  | SInt int
  | SFloat string
  | SText string
  | SOther string bool bool

fun format_value :: "scalar \<Rightarrow> string" where
  "format_value SNone = ''None''"
| "format_value (SInt n) = str_int n"
| "format_value (SFloat r) = r"
| "format_value (SText s) = s"
| "format_value (SOther r z u) = r"

text \<open>\<^verbatim>\<open>value == k\<close> for the literals 0 and 1 of the count template.\<close>

fun eq_int :: "scalar \<Rightarrow> int \<Rightarrow> bool" where
  "eq_int SNone k \<longleftrightarrow> False"
| "eq_int (SInt n) k \<longleftrightarrow> n = k"
| "eq_int (SFloat r) k \<longleftrightarrow>
     (if k = 0 then r = ''0.0'' \<or> r = ''-0.0'' else if k = 1 then r = ''1.0'' else False)"
| "eq_int (SText s) k \<longleftrightarrow> False"
| "eq_int (SOther r z u) k \<longleftrightarrow> (if k = 0 then z else if k = 1 then u else False)"

section \<open>Classifier and entity namer\<close>

text \<open>
  The count test of \<^verbatim>\<open>identify_query_type\<close> is an \<^verbatim>\<open>if\<close> inside an \<^verbatim>\<open>if\<close>, with
  no \<^verbatim>\<open>else\<close>: when either fails, control falls through to the tests that follow,
  here \<open>later\<close>.
\<close>

definition identify_query_type :: "string \<Rightarrow> string list \<Rightarrow> scalar list list \<Rightarrow> string" where
  "identify_query_type question0 columns rows =
     (let question = lower question0;
          later =
            (if length rows = 1 then ''single_entity''
             else if contains question ''list'' \<or> contains question ''show''
                     \<or> contains question ''all''
               then ''list''
             else if list_ex (\<lambda>col. list_ex (startswith (lower col))
                                      [''avg'', ''sum'', ''max'', ''min'']) columns
               then ''aggregation''
             else if length rows > 1 then ''list''
             else ''general'')
      in if contains question ''count'' \<or> contains question ''how many''
         then (if length columns = 1 \<and> length rows = 1 then ''count'' else later)
         else later)"

definition extract_entity_name :: "string \<Rightarrow> string" where
  "extract_entity_name question0 =
     (let question = lower question0 in
      if contains question ''user'' \<or> contains question ''student'' then ''users''
      else if contains question ''internship'' \<or> contains question ''job'' then ''internships''
      else if contains question ''application'' \<or> contains question ''applied''
        then ''applications''
      else ''items'')"

section \<open>Tabular renderer\<close>

text \<open>
  The width loops of \<^verbatim>\<open>format_tabular_data\<close>: \<^verbatim>\<open>col_widths[i] = max(col_widths[i],
  len(format_value(val)))\<close> for each cell of each row of \<^verbatim>\<open>rows[:limit]\<close>. The list
  is updated in place, so it is passed along; an index beyond the column list raises
  \<^verbatim>\<open>IndexError\<close>.
\<close>

fun widen_row :: "nat list \<Rightarrow> nat \<Rightarrow> scalar list \<Rightarrow> py_error + nat list" where
  "widen_row col_widths i [] = Inr col_widths"
| "widen_row col_widths i (val # vals) =
     (if i < length col_widths
      then widen_row (col_widths[i := max (col_widths ! i) (length (format_value val))])
             (Suc i) vals
      else Inl IndexError)"

fun widen_rows :: "nat list \<Rightarrow> scalar list list \<Rightarrow> py_error + nat list" where
  "widen_rows col_widths [] = Inr col_widths"
| "widen_rows col_widths (row # rows) =
     (case widen_row col_widths 0 row of
        Inl e \<Rightarrow> Inl e
      | Inr col_widths' \<Rightarrow> widen_rows col_widths' rows)"

definition table_widths :: "string list \<Rightarrow> scalar list list \<Rightarrow> int \<Rightarrow> py_error + nat list" where
  "table_widths columns rows limit = widen_rows (map length columns) (slice_to rows limit)"

definition table_header :: "nat list \<Rightarrow> string list \<Rightarrow> string" where
  "table_header col_widths columns =
     join '' | '' (map (\<lambda>(i, col). ljust col (col_widths ! i)) (enumerate 0 columns))"

definition format_row :: "nat list \<Rightarrow> scalar list \<Rightarrow> string" where
  "format_row col_widths row =
     join '' | '' (map (\<lambda>(i, val). ljust (format_value val) (col_widths ! i)) (enumerate 0 row))"

definition more_rows_line :: "scalar list list \<Rightarrow> int \<Rightarrow> string list" where
  "more_rows_line rows limit =
     (if int (length rows) > limit
      then [''... and '' @ str_int (int (length rows) - limit) @ '' more rows'']
      else [])"

text \<open>
  When the width loops have returned, every row of \<^verbatim>\<open>rows[:limit]\<close> is at most as
  long as the width list, and the width list is as long as the column list: the reads
  \<^verbatim>\<open>col_widths[i]\<close> of the header and of the data rows are in range.
\<close>

definition format_tabular_data :: "string list \<Rightarrow> scalar list list \<Rightarrow> int \<Rightarrow> py_error + string"
  where
  "format_tabular_data columns rows limit =
     (if rows = [] then Inr ''No data found.''
      else case table_widths columns rows limit of
        Inl e \<Rightarrow> Inl e
      | Inr col_widths \<Rightarrow>
          let header = table_header col_widths columns;
              separator = replicate (length header) CHR ''-'';
              formatted_rows = map (format_row col_widths) (slice_to rows limit)
                               @ more_rows_line rows limit
          in Inr (header @ nl @ separator @ nl @ join nl formatted_rows))"

definition default_limit :: int where
  "default_limit = 10"

section \<open>Response templates\<close>

definition generate_count_response ::
  "string \<Rightarrow> string list \<Rightarrow> scalar list list \<Rightarrow> py_error + string" where
  "generate_count_response question columns rows =
     (let entity = extract_entity_name question in
      case rows of
        [] \<Rightarrow> Inl IndexError
      | row # _ \<Rightarrow>
          (case row of
             [] \<Rightarrow> Inl IndexError
           | count # _ \<Rightarrow>
               if eq_int count 0
                 then Inr (''I found no '' @ entity @ '' matching your criteria.'')
               else if eq_int count 1
                 then Inr (''There is 1 '' @ butlast entity @ '' matching your criteria.'')
               else Inr (''There are '' @ format_value count @ '' '' @ entity
                         @ '' matching your criteria.'')))"

definition generate_list_response ::
  "string \<Rightarrow> string list \<Rightarrow> scalar list list \<Rightarrow> py_error + string" where
  "generate_list_response question columns rows =
     (let entity = extract_entity_name question in
      if length rows = 0
        then Inr (''I couldn't find any '' @ entity @ '' matching your criteria.'')
      else
        let intro = ''Here are the '' @ str_int (int (length rows)) @ '' '' @ entity
                    @ '' I found:''
        in case format_tabular_data columns rows default_limit of
             Inl e \<Rightarrow> Inl e
           | Inr table \<Rightarrow> Inr (intro @ nl @ nl @ table))"

text \<open>
  The loop of the single-entity template: one line per column, reading \<^verbatim>\<open>result[i]\<close>
  at the column's index.
\<close>

fun entity_details :: "scalar list \<Rightarrow> (nat \<times> string) list \<Rightarrow> py_error + string list" where
  "entity_details result [] = Inr []"
| "entity_details result ((i, col) # rest) =
     (if i < length result
      then (case entity_details result rest of
              Inl e \<Rightarrow> Inl e
            | Inr details \<Rightarrow>
                Inr ((title (replace_char CHR ''_'' CHR '' '' col) @ '': ''
                      @ format_value (result ! i)) # details))
      else Inl IndexError)"

definition generate_single_entity_response ::
  "string \<Rightarrow> string list \<Rightarrow> scalar list list \<Rightarrow> py_error + string" where
  "generate_single_entity_response question columns rows =
     (let entity = butlast (extract_entity_name question) in
      case rows of
        [] \<Rightarrow> Inl IndexError
      | result # _ \<Rightarrow>
          (case entity_details result (enumerate 0 columns) of
             Inl e \<Rightarrow> Inl e
           | Inr details \<Rightarrow>
               Inr (''Here are the details for the '' @ entity @ '':'' @ nl @ nl
                    @ join nl details)))"

definition generate_aggregation_response ::
  "string \<Rightarrow> string list \<Rightarrow> scalar list list \<Rightarrow> py_error + string" where
  "generate_aggregation_response question columns rows =
     (let entity = extract_entity_name question;
          intro = ''Here's the requested summary information about '' @ entity @ '':''
      in case format_tabular_data columns rows default_limit of
           Inl e \<Rightarrow> Inl e
         | Inr table \<Rightarrow> Inr (intro @ nl @ nl @ table))"

definition generate_general_response ::
  "string \<Rightarrow> string list \<Rightarrow> scalar list list \<Rightarrow> py_error + string" where
  "generate_general_response question columns rows =
     (let intro = ''Here are the results for your query:''
      in case format_tabular_data columns rows default_limit of
           Inl e \<Rightarrow> Inl e
         | Inr table \<Rightarrow> Inr (intro @ nl @ nl @ table))"

section \<open>User-detail lookup\<close>

text \<open>
  \<^verbatim>\<open>fetch_user_details\<close> of \<^verbatim>\<open>db.py\<close> asks the database two queries. The database
  is outside the program: it is a function from the username to what the two queries
  give, with \<open>DbFailure\<close> for any exception raised on the way, which the function
  catches. The statistics row holds the two counts and the three company lists, each list
  NULL when there is no company.
\<close>

type_synonym stats_row = "int \<times> int \<times> string option \<times> string option \<times> string option"

datatype db_answer =
    DbFailure
  | NoUserRow
  | UserRow string "stats_row option"

type_synonym database = "string \<Rightarrow> db_answer"

type_synonym user_info =
  "string \<times> int \<times> int \<times> string option \<times> string option \<times> string option"

fun fetch_user_details :: "database \<Rightarrow> string \<Rightarrow> user_info option" where
  "fetch_user_details db user_name =
     (case db user_name of
        DbFailure \<Rightarrow> None
      | NoUserRow \<Rightarrow> None
      | UserRow name None \<Rightarrow> Some (name, 0, 0, Some ''None'', None, None)
      | UserRow name (Some (total_internships, companies, company_list, selected, rejected)) \<Rightarrow>
          Some (name, total_internships, companies, company_list, selected, rejected))"

text \<open>An f-string field holding a text or \<^verbatim>\<open>None\<close>.\<close>

fun str_opt :: "string option \<Rightarrow> string" where
  "str_opt None = ''None''"
| "str_opt (Some s) = s"

text \<open>\<^verbatim>\<open>x if x else "None"\<close>: \<^verbatim>\<open>None\<close> and the empty text are false.\<close>

fun or_none :: "string option \<Rightarrow> string" where
  "or_none None = ''None''"
| "or_none (Some s) = (if s = [] then ''None'' else s)"

definition handle_user_details_query :: "database \<Rightarrow> string \<Rightarrow> string" where
  "handle_user_details_query db user_name =
     (case fetch_user_details db user_name of
        None \<Rightarrow> ''No record found for '' @ user_name
      | Some (name, total_internships, companies, company_list, selected, rejected) \<Rightarrow>
          nl @ ''    Name: '' @ name @ nl
          @ ''    Applied in '' @ str_int total_internships @ '' internships across ''
          @ str_int companies @ '' companies: '' @ str_opt company_list @ nl
          @ ''    Selected in: '' @ or_none selected @ nl
          @ ''    Rejected in: '' @ or_none rejected @ nl
          @ ''    '')"

section \<open>Dispatcher\<close>

text \<open>
  The answer of \<^verbatim>\<open>generate_response\<close>, with the usernames handed to the user-detail
  lookup during the call, in order.
\<close>

record reply =
  response :: string
  lookups :: "string list"

definition dispatch ::
  "string \<Rightarrow> string list \<Rightarrow> scalar list list \<Rightarrow> py_error + string" where
  "dispatch question columns rows =
     (let query_type = identify_query_type question columns rows in
      if query_type = ''count'' then generate_count_response question columns rows
      else if query_type = ''list'' then generate_list_response question columns rows
      else if query_type = ''single_entity''
        then generate_single_entity_response question columns rows
      else if query_type = ''aggregation''
        then generate_aggregation_response question columns rows
      else generate_general_response question columns rows)"

definition classified ::
  "string \<Rightarrow> string list \<Rightarrow> scalar list list \<Rightarrow> py_error + reply" where
  "classified question columns rows =
     (case dispatch question columns rows of
        Inl e \<Rightarrow> Inl e
      | Inr text \<Rightarrow> Inr \<lparr>response = text, lookups = []\<rparr>)"

definition generate_response ::
  "database \<Rightarrow> string \<Rightarrow> string list \<Rightarrow> scalar list list \<Rightarrow> py_error + reply" where
  "generate_response db question columns rows =
     (if contains (lower question) ''details of''
      then (case py_split (lower question) ''details of'' of
              Inl e \<Rightarrow> Inl e
            | Inr parts \<Rightarrow>
                if length parts > 1
                then let user_name = strip (parts ! 1)
                     in Inr \<lparr>response = handle_user_details_query db user_name,
                             lookups = [user_name]\<rparr>
                else classified question columns rows)
      else classified question columns rows)"

section \<open>The classifier against the decision sequence of the specification\<close>

text \<open>
  A first-match decision sequence: the rules are tried in order, the first whose
  condition holds gives the result, and the default is returned when none holds.
\<close>

fun first_match :: "(bool \<times> 'a) list \<Rightarrow> 'a \<Rightarrow> 'a" where
  "first_match [] d = d"
| "first_match ((c, r) # rules) d = (if c then r else first_match rules d)"

text \<open>
  The six rules of the classifier as the specification words them (section 4.3), to be
  compared with \<open>identify_query_type\<close>.
\<close>

definition classify_spec :: "string \<Rightarrow> string list \<Rightarrow> scalar list list \<Rightarrow> string" where
  "classify_spec question columns rows =
     first_match
       [((contains (lower question) ''count'' \<or> contains (lower question) ''how many'')
           \<and> length columns = 1 \<and> length rows = 1, ''count''),
        (length rows = 1, ''single_entity''),
        (contains (lower question) ''list'' \<or> contains (lower question) ''show''
           \<or> contains (lower question) ''all'', ''list''),
        (\<exists>col \<in> set columns. \<exists>p \<in> set [''avg'', ''sum'', ''max'', ''min''].
           startswith (lower col) p, ''aggregation''),
        (length rows > 1, ''list'')]
       ''general''"

text \<open>
  The precedence chain of the entity namer as the specification words it (section 4.2):
  each rule is a set of keywords and the noun it gives.
\<close>

definition entity_rules :: "(string list \<times> string) list" where
  "entity_rules =
     [([''user'', ''student''], ''users''),
      ([''internship'', ''job''], ''internships''),
      ([''application'', ''applied''], ''applications'')]"

definition infer_spec :: "string \<Rightarrow> string" where
  "infer_spec question =
     first_match (map (\<lambda>(keywords, noun). (list_ex (contains (lower question)) keywords, noun))
                    entity_rules)
       ''items''"

text \<open>
  The two readings of the username on the "details of" path. \<open>after_first\<close> is the
  specification's "everything after the first occurrence" of the separator (section 4.6);
  \<open>before_first\<close> is everything before the first occurrence, and the whole text when
  there is none.
\<close>

definition after_first :: "string \<Rightarrow> string \<Rightarrow> string" where
  "after_first sep s = (case py_find s sep of None \<Rightarrow> [] | Some i \<Rightarrow> drop (i + length sep) s)"

definition before_first :: "string \<Rightarrow> string \<Rightarrow> string" where
  "before_first sep s = (case py_find s sep of None \<Rightarrow> s | Some i \<Rightarrow> take i s)"

text \<open>
  The display width of a column as the specification words it (section 4.4): the
  maximum of the header's length and of the formatted lengths of the column's values in
  the given rows.
\<close>

definition width_spec :: "string list \<Rightarrow> scalar list list \<Rightarrow> nat \<Rightarrow> nat" where
  "width_spec columns rows j =
     Max (insert (length (columns ! j)) ((\<lambda>r. length (format_value (r ! j))) ` set rows))"

text \<open>
  The text that follows "details of" in the question itself, in the question's own
  casing: from the end of the first occurrence of the separator, matched in the
  lower-cased question, to the next occurrence, or to the end when there is no other.
\<close>

definition text_after :: "string \<Rightarrow> string \<Rightarrow> string" where
  "text_after sep question =
     (case py_find (lower question) sep of
        None \<Rightarrow> []
      | Some i \<Rightarrow>
          let rest = drop (i + length sep) question
          in case py_find (lower rest) sep of None \<Rightarrow> rest | Some j \<Rightarrow> take j rest)"

section \<open>Properties of the text primitives\<close>

lemma startswith_iff: "startswith s p \<longleftrightarrow> (\<exists>r. s = p @ r)"
proof
  assume "startswith s p"
  then have "s = p @ drop (length p) s"
    unfolding startswith_def by (metis append_take_drop_id)
  then show "\<exists>r. s = p @ r" ..
next
  assume "\<exists>r. s = p @ r"
  then show "startswith s p"
    unfolding startswith_def by auto
qed

text \<open>\<open>contains\<close> is the substring relation.\<close>

lemma contains_iff: "contains s sub \<longleftrightarrow> (\<exists>p r. s = p @ sub @ r)"
proof (induction s)
  case Nil
  show ?case by simp
next
  case (Cons c cs)
  have "(\<exists>p r. c # cs = p @ sub @ r)
        \<longleftrightarrow> (\<exists>r. c # cs = sub @ r) \<or> (\<exists>p r. cs = p @ sub @ r)"
  proof
    assume "\<exists>p r. c # cs = p @ sub @ r"
    then obtain p r where e: "c # cs = p @ sub @ r" by blast
    show "(\<exists>r. c # cs = sub @ r) \<or> (\<exists>p r. cs = p @ sub @ r)"
    proof (cases p)
      case Nil
      with e show ?thesis by auto
    next
      case (Cons a p')
      with e have "cs = p' @ sub @ r" by simp
      then show ?thesis by blast
    qed
  next
    assume "(\<exists>r. c # cs = sub @ r) \<or> (\<exists>p r. cs = p @ sub @ r)"
    then show "\<exists>p r. c # cs = p @ sub @ r"
    proof
      assume "\<exists>r. c # cs = sub @ r"
      then obtain r where "c # cs = [] @ sub @ r" by auto
      then show ?thesis by blast
    next
      assume "\<exists>p r. cs = p @ sub @ r"
      then obtain p r where "c # cs = (c # p) @ sub @ r" by auto
      then show ?thesis by blast
    qed
  qed
  with Cons.IH show ?case
    by (simp add: startswith_iff)
qed

text \<open>\<open>py_find\<close> gives the first position at which the text occurs.\<close>

lemma py_find_first:
  "py_find s sub = Some i \<Longrightarrow>
     startswith (drop i s) sub \<and> (\<forall>j < i. \<not> startswith (drop j s) sub)"
proof (induction s arbitrary: i)
  case Nil
  then show ?case by (simp add: startswith_def split: if_splits)
next
  case (Cons c cs)
  show ?case
  proof (cases "startswith (c # cs) sub")
    case True
    with Cons.prems show ?thesis by simp
  next
    case False
    with Cons.prems obtain k where k: "py_find cs sub = Some k" "i = Suc k"
      by auto
    from Cons.IH [OF k(1)] False show ?thesis
      unfolding k(2) by (auto simp: less_Suc_eq_0_disj)
  qed
qed

lemma aggregate_column_iff:
  "list_ex (\<lambda>col. list_ex (startswith (lower col)) [''avg'', ''sum'', ''max'', ''min'']) columns
   \<longleftrightarrow> (\<exists>col \<in> set columns. \<exists>p \<in> set [''avg'', ''sum'', ''max'', ''min''].
          startswith (lower col) p)"
  unfolding list_ex_iff by (rule refl)

text \<open>
  C1. For every question, column list and row list, the classifier returns the result
  of the six-rule first-match decision sequence of the specification: count on a count
  keyword with one column and one row, else single\_entity on one row, else list on a
  list keyword, else aggregation on an aggregate column name, else list on more than one
  row, else general.
\<close>

theorem identify_query_type_is_decision_sequence:
  "identify_query_type question columns rows = classify_spec question columns rows"
  unfolding identify_query_type_def classify_spec_def Let_def aggregate_column_iff
  by simp

theorem identify_query_type_is_decision_sequence_witness:
  "identify_query_type ''What is the average stipend for internships?'' [''avg(stipend)'']
     [[SFloat ''5166.67''], [SFloat ''12.5'']] = ''aggregation''"
proof -
  have "classify_spec ''What is the average stipend for internships?'' [''avg(stipend)'']
     [[SFloat ''5166.67''], [SFloat ''12.5'']] = ''aggregation''"
    by code_simp
  then show ?thesis
    using identify_query_type_is_decision_sequence
      [of "''What is the average stipend for internships?''" "[''avg(stipend)'']"
          "[[SFloat ''5166.67''], [SFloat ''12.5'']]"]
    by simp
qed

text \<open>
  C2, as amended. On an empty row list the classifier returns list when the lower-cased
  question contains "list", "show" or "all"; otherwise aggregation when some column
  name, lower-cased, starts with "avg", "sum", "max" or "min"; otherwise general. It
  never returns count or single\_entity there.
\<close>

theorem identify_query_type_no_rows:
  "identify_query_type question columns [] =
     (if contains (lower question) ''list'' \<or> contains (lower question) ''show''
         \<or> contains (lower question) ''all'' then ''list''
      else if \<exists>col \<in> set columns. \<exists>p \<in> set [''avg'', ''sum'', ''max'', ''min''].
                startswith (lower col) p then ''aggregation''
      else ''general'')"
  unfolding identify_query_type_def Let_def aggregate_column_iff
  by simp

theorem identify_query_type_no_rows_witness:
  "identify_query_type ''Which internships pay best?'' [''id'', ''MAX(stipend)''] []
     = ''aggregation''"
proof -
  have "(if contains (lower ''Which internships pay best?'') ''list''
           \<or> contains (lower ''Which internships pay best?'') ''show''
           \<or> contains (lower ''Which internships pay best?'') ''all'' then ''list''
         else if \<exists>col \<in> set [''id'', ''MAX(stipend)''].
                   \<exists>p \<in> set [''avg'', ''sum'', ''max'', ''min'']. startswith (lower col) p
           then ''aggregation''
         else ''general'') = ''aggregation''"
    by code_simp
  then show ?thesis
    using identify_query_type_no_rows [of "''Which internships pay best?''" "[''id'', ''MAX(stipend)'']"]
    by simp
qed

text \<open>
  The claim C2 as written allows only general and list on an empty row list. On the
  question of the specification's aggregation scenario, which holds none of the list
  keywords, an aggregate column and no rows give aggregation.
\<close>

theorem identify_query_type_no_rows_counterexample:
  "\<not> contains (lower ''What is the average stipend for internships?'') ''list''
   \<and> \<not> contains (lower ''What is the average stipend for internships?'') ''show''
   \<and> \<not> contains (lower ''What is the average stipend for internships?'') ''all''
   \<and> identify_query_type ''What is the average stipend for internships?''
        [''avg(stipend)''] [] = ''aggregation''
   \<and> identify_query_type ''What is the average stipend for internships?''
        [''avg(stipend)''] [] \<noteq> ''general''"
  by code_simp

text \<open>
  C7. For every question the entity namer returns the first match of the precedence
  chain of the specification over the lower-cased question, so an earlier rule masks a
  later one: "user applications" holds a keyword of the first and of the third rule and
  yields "users".
\<close>

theorem extract_entity_name_precedence:
  "extract_entity_name question = infer_spec question
   \<and> contains (lower ''user applications'') ''user''
   \<and> contains (lower ''user applications'') ''application''
   \<and> extract_entity_name ''user applications'' = ''users''"
proof -
  have "extract_entity_name question = infer_spec question"
    unfolding extract_entity_name_def infer_spec_def entity_rules_def Let_def by simp
  moreover have "contains (lower ''user applications'') ''user''
     \<and> contains (lower ''user applications'') ''application''
     \<and> extract_entity_name ''user applications'' = ''users''"
    by code_simp
  ultimately show ?thesis by simp
qed

theorem extract_entity_name_precedence_witness:
  "extract_entity_name ''Jobs a student applied to'' = ''users''"
proof -
  have "infer_spec ''Jobs a student applied to'' = ''users''"
    by code_simp
  then show ?thesis
    using extract_entity_name_precedence [of "''Jobs a student applied to''"] by simp
qed

section \<open>The "details of" path\<close>

lemma contains_iff_find: "contains s sub \<longleftrightarrow> py_find s sub \<noteq> None"
  by (induction s) auto

lemma split_parts_not_Nil: "split_parts sep s \<noteq> []"
  by (subst split_parts.simps) (simp split: option.splits)

lemma hd_split_parts: "sep \<noteq> [] \<Longrightarrow> hd (split_parts sep s) = before_first sep s"
  by (subst split_parts.simps) (simp add: before_first_def split: option.splits)

lemma split_parts_found:
  assumes "sep \<noteq> []" and "contains s sep"
  shows "split_parts sep s = before_first sep s # split_parts sep (after_first sep s)"
proof -
  from assms(2) obtain i where i: "py_find s sep = Some i"
    by (auto simp: contains_iff_find)
  show ?thesis
    by (subst split_parts.simps) (simp add: assms(1) i before_first_def after_first_def)
qed

lemma split_parts_second:
  assumes "sep \<noteq> []" and "contains s sep"
  shows "1 < length (split_parts sep s)"
    and "split_parts sep s ! 1 = before_first sep (after_first sep s)"
proof -
  let ?rest = "split_parts sep (after_first sep s)"
  have ne: "?rest \<noteq> []" by (rule split_parts_not_Nil)
  have eq: "split_parts sep s = before_first sep s # ?rest"
    using assms by (rule split_parts_found)
  from ne show "1 < length (split_parts sep s)"
    by (simp add: eq)
  have "split_parts sep s ! 1 = hd ?rest"
    using ne by (simp add: eq hd_conv_nth)
  then show "split_parts sep s ! 1 = before_first sep (after_first sep s)"
    by (simp add: hd_split_parts assms(1))
qed

text \<open>
  A question whose lower-cased text contains "details of" never reaches the
  classifier: the split has a second piece, and the answer is the user-detail answer for
  that piece, trimmed.
\<close>

lemma generate_response_details:
  assumes "contains (lower question) ''details of''"
  shows "generate_response db question columns rows =
           Inr \<lparr>response = handle_user_details_query db
                              (strip (split_parts ''details of'' (lower question) ! 1)),
                lookups = [strip (split_parts ''details of'' (lower question) ! 1)]\<rparr>"
proof -
  have "1 < length (split_parts ''details of'' (lower question))"
    using assms by (intro split_parts_second(1)) simp_all
  then show ?thesis
    using assms by (simp add: generate_response_def py_split_def Let_def)
qed

lemma not_upper_lower_char: "\<not> is_upper (lower_char c)"
  by (auto simp: is_upper_def lower_char_def)

lemma lower_char_fixed: "\<not> is_upper c \<Longrightarrow> lower_char c = c"
  by (simp add: lower_char_def)

lemma lower_lower: "lower (lower s) = lower s"
  by (simp add: lower_def lower_char_fixed not_upper_lower_char)

lemma no_upper_lower: "\<not> list_ex is_upper (lower s)"
  by (simp add: lower_def list_ex_iff not_upper_lower_char)

text \<open>Lower-casing turns no character into whitespace and no whitespace into a letter.\<close>

lemma is_space_lower_char: "is_space (lower_char c) = is_space c"
proof (cases "is_upper c")
  case False
  then show ?thesis by (simp add: lower_char_def)
next
  case True
  then have "\<not> is_space c"
    by (auto simp: is_upper_def is_space_def)
  moreover from True have "\<not> is_space (lower_char c)"
    by (auto simp: is_upper_def is_space_def lower_char_def)
  ultimately show ?thesis by simp
qed

lemma dropWhile_is_space_lower:
  "dropWhile is_space (map lower_char s) = map lower_char (dropWhile is_space s)"
  by (induction s) (simp_all add: is_space_lower_char)

lemma strip_lower: "strip (lower s) = lower (strip s)"
  unfolding strip_def lower_def
  by (simp add: dropWhile_is_space_lower rev_map)

text \<open>
  The second piece of the split of the lower-cased question is the lower-casing of the
  question's own text after "details of".
\<close>

lemma lower_text_after:
  "before_first sep (after_first sep (lower question)) = lower (text_after sep question)"
proof (cases "py_find (lower question) sep")
  case None
  then show ?thesis
    by (simp add: after_first_def before_first_def text_after_def lower_def
             split: option.splits)
next
  case (Some i)
  define rest where "rest = drop (i + length sep) question"
  have a: "after_first sep (lower question) = lower rest"
    using Some by (simp add: after_first_def rest_def lower_def drop_map)
  have t: "text_after sep question
           = (case py_find (lower rest) sep of None \<Rightarrow> rest | Some j \<Rightarrow> take j rest)"
    unfolding text_after_def rest_def Let_def using Some by simp
  show ?thesis
    unfolding a t before_first_def
    by (cases "py_find (lower rest) sep") (simp_all add: lower_def take_map)
qed

text \<open>
  C3, as amended. For every question whose lower-cased text contains "details of",
  whatever the columns, the rows and the other keywords, the answer is the user-detail
  answer and the lookup is made once, for the text of the lower-cased question between
  the first occurrence of "details of" and the next one (the end of the question when
  there is no other), trimmed of surrounding whitespace.
\<close>

theorem generate_response_details_of:
  assumes "contains (lower question) ''details of''"
  shows "generate_response db question columns rows =
           Inr \<lparr>response = handle_user_details_query db
                   (strip (before_first ''details of'' (after_first ''details of'' (lower question)))),
                lookups =
                   [strip (before_first ''details of'' (after_first ''details of'' (lower question)))]\<rparr>"
proof -
  have "split_parts ''details of'' (lower question) ! 1
        = before_first ''details of'' (after_first ''details of'' (lower question))"
    using assms by (intro split_parts_second(2)) simp_all
  then show ?thesis
    using generate_response_details [OF assms, of db columns rows] by simp
qed

theorem generate_response_details_of_witness:
  "contains (lower ''Show me details of user john_doe'') ''details of''
   \<and> generate_response (\<lambda>u. NoUserRow) ''Show me details of user john_doe''
        [''name'', ''email'', ''phone'', ''address'']
        [[SText ''John Smith'', SText ''john@example.com'', SText ''123-456-7890'',
          SText ''123 Main St'']]
      = Inr \<lparr>response = ''No record found for user john_doe'',
             lookups = [''user john_doe'']\<rparr>
   \<and> contains (lower (''Details of'' @ [CHR 0xA0] @ ''Bob'' @ [CHR 0x85])) ''details of''
   \<and> generate_response (\<lambda>u. NoUserRow) (''Details of'' @ [CHR 0xA0] @ ''Bob'' @ [CHR 0x85])
        [] []
      = Inr \<lparr>response = ''No record found for bob'', lookups = [''bob'']\<rparr>"
proof -
  let ?q = "''Details of'' @ [CHR 0xA0] @ ''Bob'' @ [CHR 0x85]"
  have c: "contains (lower ''Show me details of user john_doe'') ''details of''"
    by code_simp
  have u: "strip (before_first ''details of''
             (after_first ''details of'' (lower ''Show me details of user john_doe'')))
           = ''user john_doe''"
    by code_simp
  have h: "handle_user_details_query (\<lambda>u. NoUserRow) ''user john_doe''
           = ''No record found for user john_doe''"
    by (simp add: handle_user_details_query_def)
  have c': "contains (lower ?q) ''details of''"
    by code_simp
  have u': "strip (before_first ''details of'' (after_first ''details of'' (lower ?q))) = ''bob''"
    by code_simp
  have h': "handle_user_details_query (\<lambda>u. NoUserRow) ''bob'' = ''No record found for bob''"
    by (simp add: handle_user_details_query_def)
  have one: "generate_response (\<lambda>u. NoUserRow) ''Show me details of user john_doe''
        [''name'', ''email'', ''phone'', ''address'']
        [[SText ''John Smith'', SText ''john@example.com'', SText ''123-456-7890'',
          SText ''123 Main St'']]
      = Inr \<lparr>response = ''No record found for user john_doe'',
             lookups = [''user john_doe'']\<rparr>"
    using generate_response_details_of [OF c, of "\<lambda>u. NoUserRow"] by (simp only: u h)
  have two: "generate_response (\<lambda>u. NoUserRow) ?q [] []
      = Inr \<lparr>response = ''No record found for bob'', lookups = [''bob'']\<rparr>"
    using generate_response_details_of [OF c', of "\<lambda>u. NoUserRow"] by (simp only: u' h')
  from c one c' two show ?thesis by (intro conjI)
qed

text \<open>
  The claim C3 as written takes the username to be everything after the first
  occurrence of "details of". On a question with two occurrences the lookup is made for
  the text between them only.
\<close>

theorem generate_response_details_of_counterexample:
  "contains (lower ''details of ann and details of bob'') ''details of''
   \<and> strip (after_first ''details of'' (lower ''details of ann and details of bob''))
       = ''ann and details of bob''
   \<and> generate_response (\<lambda>u. NoUserRow) ''details of ann and details of bob'' [] []
       = Inr \<lparr>response = ''No record found for ann and'', lookups = [''ann and'']\<rparr>"
  by code_simp

text \<open>
  C9. On the "details of" path the username handed to the user-detail lookup is the
  lower-cased form of the question's own text after "details of", trimmed: whatever the
  casing of the question, the name looked up holds no upper-case letter and lower-casing
  leaves it as it is.
\<close>

theorem generate_response_lookup_lower_cased:
  assumes "contains (lower question) ''details of''"
  shows "generate_response db question columns rows =
           Inr \<lparr>response = handle_user_details_query db
                              (lower (strip (text_after ''details of'' question))),
                lookups = [lower (strip (text_after ''details of'' question))]\<rparr>
         \<and> \<not> list_ex is_upper (lower (strip (text_after ''details of'' question)))
         \<and> lower (lower (strip (text_after ''details of'' question)))
             = lower (strip (text_after ''details of'' question))"
proof -
  have "split_parts ''details of'' (lower question) ! 1
        = before_first ''details of'' (after_first ''details of'' (lower question))"
    using assms by (intro split_parts_second(2)) simp_all
  then have "strip (split_parts ''details of'' (lower question) ! 1)
             = lower (strip (text_after ''details of'' question))"
    by (simp only: lower_text_after strip_lower)
  then have "generate_response db question columns rows =
           Inr \<lparr>response = handle_user_details_query db
                              (lower (strip (text_after ''details of'' question))),
                lookups = [lower (strip (text_after ''details of'' question))]\<rparr>"
    using generate_response_details [OF assms, of db columns rows] by (simp only:)
  moreover have "\<not> list_ex is_upper (lower (strip (text_after ''details of'' question)))"
    by (rule no_upper_lower)
  moreover have "lower (lower (strip (text_after ''details of'' question)))
             = lower (strip (text_after ''details of'' question))"
    by (rule lower_lower)
  ultimately show ?thesis by (intro conjI)
qed

theorem generate_response_lookup_lower_cased_witness:
  "contains (lower ''Show me DETAILS OF John_Doe'') ''details of''
   \<and> generate_response (\<lambda>u. NoUserRow) ''Show me DETAILS OF John_Doe'' [] []
       = Inr \<lparr>response = ''No record found for john_doe'', lookups = [''john_doe'']\<rparr>
   \<and> contains (lower (''Show DETAILS OF JOS'' @ [CHR 0xC9])) ''details of''
   \<and> generate_response (\<lambda>u. NoUserRow) (''Show DETAILS OF JOS'' @ [CHR 0xC9]) [] []
       = Inr \<lparr>response = ''No record found for jos'' @ [CHR 0xE9],
              lookups = [''jos'' @ [CHR 0xE9]]\<rparr>"
proof -
  let ?q = "''Show DETAILS OF JOS'' @ [CHR 0xC9]"
  have c: "contains (lower ''Show me DETAILS OF John_Doe'') ''details of''"
    by code_simp
  have u: "lower (strip (text_after ''details of'' ''Show me DETAILS OF John_Doe''))
           = ''john_doe''"
    by code_simp
  have h: "handle_user_details_query (\<lambda>u. NoUserRow) ''john_doe''
           = ''No record found for john_doe''"
    by (simp add: handle_user_details_query_def)
  have c': "contains (lower ?q) ''details of''"
    by code_simp
  have u': "lower (strip (text_after ''details of'' ?q)) = ''jos'' @ [CHR 0xE9]"
    by code_simp
  have h': "handle_user_details_query (\<lambda>u. NoUserRow) (''jos'' @ [CHR 0xE9])
            = ''No record found for jos'' @ [CHR 0xE9]"
    by (simp add: handle_user_details_query_def)
  have one: "generate_response (\<lambda>u. NoUserRow) ''Show me DETAILS OF John_Doe'' [] []
       = Inr \<lparr>response = ''No record found for john_doe'', lookups = [''john_doe'']\<rparr>"
    using generate_response_lookup_lower_cased [OF c, of "\<lambda>u. NoUserRow" "[]" "[]"]
    by (simp only: u h)
  have two: "generate_response (\<lambda>u. NoUserRow) ?q [] []
       = Inr \<lparr>response = ''No record found for jos'' @ [CHR 0xE9],
              lookups = [''jos'' @ [CHR 0xE9]]\<rparr>"
    using generate_response_lookup_lower_cased [OF c', of "\<lambda>u. NoUserRow" "[]" "[]"]
    by (simp only: u' h')
  from c one c' two show ?thesis by (intro conjI)
qed

section \<open>The user-detail answer when there is no record\<close>

text \<open>
  C8. For every username for which the lookup yields no record (no such user, or a
  database failure, which the lookup catches), the user-detail path returns the text
  "No record found for" followed by the username, as a result and not as an error; a
  question dispatched to that path is answered by this text after the one lookup,
  whatever its columns and rows.
\<close>

theorem handle_user_details_query_no_record:
  assumes "fetch_user_details db user_name = None"
  shows "handle_user_details_query db user_name = ''No record found for '' @ user_name
         \<and> (\<forall>question columns rows.
               contains (lower question) ''details of''
               \<and> strip (split_parts ''details of'' (lower question) ! 1) = user_name
               \<longrightarrow> generate_response db question columns rows =
                     Inr \<lparr>response = ''No record found for '' @ user_name,
                          lookups = [user_name]\<rparr>)"
proof -
  have a: "handle_user_details_query db user_name = ''No record found for '' @ user_name"
    using assms by (simp add: handle_user_details_query_def)
  show ?thesis
  proof (intro conjI allI impI)
    show "handle_user_details_query db user_name = ''No record found for '' @ user_name"
      by (rule a)
  next
    fix question columns rows
    assume h: "contains (lower question) ''details of''
               \<and> strip (split_parts ''details of'' (lower question) ! 1) = user_name"
    then show "generate_response db question columns rows =
                 Inr \<lparr>response = ''No record found for '' @ user_name, lookups = [user_name]\<rparr>"
      using generate_response_details [of question db columns rows] a by simp
  qed
qed

theorem handle_user_details_query_no_record_witness:
  "fetch_user_details (\<lambda>u. if u = ''ann'' then UserRow ''Ann'' None else NoUserRow) ''bob'' = None
   \<and> handle_user_details_query (\<lambda>u. if u = ''ann'' then UserRow ''Ann'' None else NoUserRow) ''bob''
       = ''No record found for bob''
   \<and> generate_response (\<lambda>u. if u = ''ann'' then UserRow ''Ann'' None else NoUserRow)
        ''List the details of Bob'' [''id''] [[SInt 1], [SInt 2]]
       = Inr \<lparr>response = ''No record found for bob'', lookups = [''bob'']\<rparr>"
proof -
  let ?db = "\<lambda>u. if u = ''ann'' then UserRow ''Ann'' None else NoUserRow"
  have n: "fetch_user_details ?db ''bob'' = None"
    by simp
  have c: "contains (lower ''List the details of Bob'') ''details of''
           \<and> strip (split_parts ''details of'' (lower ''List the details of Bob'') ! 1) = ''bob''"
    by code_simp
  show ?thesis
    using handle_user_details_query_no_record [OF n] n c by simp
qed


section \<open>The width loops of the tabular renderer\<close>

lemma widen_row_result:
  "widen_row ws i vals =
     (if i + length vals \<le> length ws \<or> vals = []
      then Inr (map (\<lambda>j. if i \<le> j \<and> j < i + length vals
                         then max (ws ! j) (length (format_value (vals ! (j - i))))
                         else ws ! j) [0..<length ws])
      else Inl IndexError)"
proof (induction vals arbitrary: ws i)
  case Nil
  have "map (\<lambda>j. if i \<le> j \<and> j < i + length ([] :: scalar list)
                   then max (ws ! j) (length (format_value ([] ! (j - i))))
                   else ws ! j) [0..<length ws] = ws"
    by (intro nth_equalityI) simp_all
  then show ?case by simp
next
  case (Cons v vs)
  show ?case
  proof (cases "i < length ws")
    case False
    then show ?thesis by simp
  next
    case True
    let ?ws = "ws[i := max (ws ! i) (length (format_value v))]"
    have step: "widen_row ws i (v # vs) = widen_row ?ws (Suc i) vs"
      using True by simp
    have cond: "(Suc i + length vs \<le> length ?ws \<or> vs = [])
                \<longleftrightarrow> (i + length (v # vs) \<le> length ws \<or> v # vs = [])"
      using True by (cases vs) auto
    have cell: "(if Suc i \<le> j \<and> j < Suc i + length vs
                 then max (?ws ! j) (length (format_value (vs ! (j - Suc i))))
                 else ?ws ! j)
              = (if i \<le> j \<and> j < i + length (v # vs)
                 then max (ws ! j) (length (format_value ((v # vs) ! (j - i))))
                 else ws ! j)" if "j < length ws" for j
    proof (cases "j = i")
      case True
      with \<open>i < length ws\<close> show ?thesis by simp
    next
      case False
      then show ?thesis
        by (cases "i < j") (auto simp: nth_Cons' Suc_diff_Suc)
    qed
    have "map (\<lambda>j. if Suc i \<le> j \<and> j < Suc i + length vs
                     then max (?ws ! j) (length (format_value (vs ! (j - Suc i))))
                     else ?ws ! j) [0..<length ?ws]
          = map (\<lambda>j. if i \<le> j \<and> j < i + length (v # vs)
                     then max (ws ! j) (length (format_value ((v # vs) ! (j - i))))
                     else ws ! j) [0..<length ws]"
      using cell by (intro map_cong) simp_all
    then show ?thesis
      unfolding step Cons.IH [of ?ws "Suc i"] cond by simp
  qed
qed

lemma widen_row_fits:
  assumes "length vals \<le> length ws"
  shows "\<exists>ws'. widen_row ws 0 vals = Inr ws' \<and> length ws' = length ws
           \<and> (\<forall>j < length ws. ws' ! j = (if j < length vals
                                           then max (ws ! j) (length (format_value (vals ! j)))
                                           else ws ! j))"
  using assms by (simp add: widen_row_result)

lemma widen_row_too_long:
  assumes "length ws < length vals"
  shows "widen_row ws 0 vals = Inl IndexError"
  using assms by (auto simp: widen_row_result)

lemma Max_insert_max:
  assumes "finite S"
  shows "Max (insert (max a b) S) = Max (insert a (insert b S))"
proof (cases "S = {}")
  case True
  then show ?thesis by (simp add: max.commute)
next
  case False
  with assms show ?thesis by (simp add: max.assoc)
qed

text \<open>
  When no row is longer than the width list the loops return, the list keeps its
  length, and each width is the greatest of its starting value and the formatted lengths
  of the cells of that column.
\<close>

lemma widen_rows_fits:
  assumes "\<forall>r \<in> set rows. length r \<le> length ws"
  shows "\<exists>ws'. widen_rows ws rows = Inr ws' \<and> length ws' = length ws
           \<and> (\<forall>j < length ws.
                 ws' ! j = Max (insert (ws ! j)
                             ((\<lambda>r. length (format_value (r ! j))) ` {r \<in> set rows. j < length r})))"
  using assms
proof (induction rows arbitrary: ws)
  case Nil
  then show ?case by simp
next
  case (Cons r rows)
  from Cons.prems have "length r \<le> length ws" by simp
  from widen_row_fits [OF this] obtain ws1 where
    ws1: "widen_row ws 0 r = Inr ws1" "length ws1 = length ws"
      "\<forall>j < length ws. ws1 ! j = (if j < length r
                                   then max (ws ! j) (length (format_value (r ! j)))
                                   else ws ! j)"
    by blast
  from Cons.prems ws1(2) have "\<forall>r \<in> set rows. length r \<le> length ws1" by simp
  from Cons.IH [OF this] obtain ws' where
    ws': "widen_rows ws1 rows = Inr ws'" "length ws' = length ws1"
      "\<forall>j < length ws1.
         ws' ! j = Max (insert (ws1 ! j)
                     ((\<lambda>r. length (format_value (r ! j))) ` {r \<in> set rows. j < length r}))"
    by blast
  have "ws' ! j = Max (insert (ws ! j)
                    ((\<lambda>r. length (format_value (r ! j))) ` {r' \<in> set (r # rows). j < length r'}))"
    if j: "j < length ws" for j
  proof -
    let ?f = "\<lambda>r. length (format_value (r ! j))"
    let ?S = "?f ` {r \<in> set rows. j < length r}"
    have fin: "finite ?S" by simp
    have a: "ws' ! j = Max (insert (ws1 ! j) ?S)"
      using ws'(3) ws1(2) j by simp
    show ?thesis
    proof (cases "j < length r")
      case True
      then have "{r' \<in> set (r # rows). j < length r'} = insert r {r \<in> set rows. j < length r}"
        by auto
      then have "?f ` {r' \<in> set (r # rows). j < length r'} = insert (?f r) ?S"
        by simp
      moreover have "ws1 ! j = max (ws ! j) (?f r)"
        using ws1(3) j True by simp
      ultimately show ?thesis
        using a Max_insert_max [OF fin, of "ws ! j" "?f r"] by simp
    next
      case False
      then have "{r' \<in> set (r # rows). j < length r'} = {r \<in> set rows. j < length r}"
        by auto
      moreover have "ws1 ! j = ws ! j"
        using ws1(3) j False by simp
      ultimately show ?thesis
        using a by simp
    qed
  qed
  then show ?case
    using ws1 ws' by simp
qed

lemma slice_to_subset: "set (slice_to xs k) \<subseteq> set xs"
  by (auto simp: slice_to_def dest: in_set_takeD)

lemma slice_to_nonneg: "0 \<le> k \<Longrightarrow> slice_to xs k = take (nat k) xs"
  by (simp add: slice_to_def)

text \<open>
  The renderer on a non-empty row list, once the width loops have returned: header,
  separator, the rows of \<^verbatim>\<open>rows[:limit]\<close> and the line counting the others.
\<close>

lemma format_tabular_data_rendered:
  assumes "rows \<noteq> []" and "table_widths columns rows limit = Inr ws"
  shows "format_tabular_data columns rows limit =
           Inr (table_header ws columns @ nl
                @ replicate (length (table_header ws columns)) CHR ''-'' @ nl
                @ join nl (map (format_row ws) (slice_to rows limit) @ more_rows_line rows limit))"
  using assms by (simp add: format_tabular_data_def Let_def)

lemma table_widths_fits:
  assumes "\<forall>r \<in> set (slice_to rows limit). length r \<le> length columns"
  shows "\<exists>ws. table_widths columns rows limit = Inr ws \<and> length ws = length columns
           \<and> (\<forall>j < length columns.
                 ws ! j = Max (insert (length (columns ! j))
                            ((\<lambda>r. length (format_value (r ! j)))
                               ` {r \<in> set (slice_to rows limit). j < length r})))"
proof -
  from assms have "\<forall>r \<in> set (slice_to rows limit). length r \<le> length (map length columns)"
    by simp
  from widen_rows_fits [OF this] show ?thesis
    unfolding table_widths_def by simp
qed

lemma format_tabular_data_returns:
  assumes "\<forall>r \<in> set rows. length r = length columns"
  shows "\<exists>table. format_tabular_data columns rows limit = Inr table"
proof (cases "rows = []")
  case True
  then show ?thesis by (simp add: format_tabular_data_def)
next
  case False
  from assms have "\<forall>r \<in> set (slice_to rows limit). length r \<le> length columns"
    using slice_to_subset [of rows limit] by auto
  from table_widths_fits [OF this] obtain ws where "table_widths columns rows limit = Inr ws"
    by blast
  from format_tabular_data_rendered [OF False this] show ?thesis
    by blast
qed


section \<open>The tabular renderer: rows shown and column widths\<close>

text \<open>
  C5. For every column list, non-empty rectangular row list and limit (a maximum number
  of rows, so not negative), the renderer emits the header, the separator and one data
  row for each of the first limit rows, at most limit of them, and then the line
  "... and N more rows" if and only if the number of rows exceeds the limit, with N the
  number of rows minus the limit.
\<close>

theorem format_tabular_data_rows:
  assumes "rows \<noteq> []"
    and "\<forall>r \<in> set rows. length r = length columns"
    and "0 \<le> limit"
  shows "\<exists>ws data.
           data = map (format_row ws) (take (nat limit) rows)
           \<and> length data = min (nat limit) (length rows)
           \<and> int (length data) \<le> limit
           \<and> format_tabular_data columns rows limit =
               Inr (table_header ws columns @ nl
                    @ replicate (length (table_header ws columns)) CHR ''-'' @ nl
                    @ join nl (data
                               @ (if int (length rows) > limit
                                  then [''... and '' @ str_int (int (length rows) - limit)
                                        @ '' more rows'']
                                  else [])))"
proof -
  have sl: "slice_to rows limit = take (nat limit) rows"
    using assms(3) by (rule slice_to_nonneg)
  from assms(2) have "\<forall>r \<in> set (slice_to rows limit). length r \<le> length columns"
    using slice_to_subset [of rows limit] by auto
  from table_widths_fits [OF this] obtain ws
    where "table_widths columns rows limit = Inr ws"
    by blast
  from format_tabular_data_rendered [OF assms(1) this]
  have r: "format_tabular_data columns rows limit =
             Inr (table_header ws columns @ nl
                  @ replicate (length (table_header ws columns)) CHR ''-'' @ nl
                  @ join nl (map (format_row ws) (take (nat limit) rows)
                             @ (if int (length rows) > limit
                                then [''... and '' @ str_int (int (length rows) - limit)
                                      @ '' more rows'']
                                else [])))"
    unfolding more_rows_line_def sl .
  have n: "length (map (format_row ws) (take (nat limit) rows)) = min (nat limit) (length rows)"
    by (simp add: min.commute)
  have "int (min (nat limit) (length rows)) \<le> limit"
    using assms(3) by (auto simp: min_def)
  with n have b: "int (length (map (format_row ws) (take (nat limit) rows))) \<le> limit"
    by simp
  from r n b show ?thesis by blast
qed

theorem format_tabular_data_rows_witness:
  "[[SInt 1, SText ''Tech Corp''], [SInt 2, SText ''Data Inc''], [SInt 3, SNone]] \<noteq> []
   \<and> list_all (\<lambda>r. length r = length [''id'', ''company_name''])
        [[SInt 1, SText ''Tech Corp''], [SInt 2, SText ''Data Inc''], [SInt 3, SNone]]
   \<and> (0 :: int) \<le> 2
   \<and> (\<exists>ws data.
         data = map (format_row ws) [[SInt 1, SText ''Tech Corp''], [SInt 2, SText ''Data Inc'']]
         \<and> length data = 2
         \<and> format_tabular_data [''id'', ''company_name'']
               [[SInt 1, SText ''Tech Corp''], [SInt 2, SText ''Data Inc''], [SInt 3, SNone]] 2 =
             Inr (table_header ws [''id'', ''company_name''] @ nl
                  @ replicate (length (table_header ws [''id'', ''company_name''])) CHR ''-'' @ nl
                  @ join nl (data @ [''... and '' @ str_int 1 @ '' more rows''])))
   \<and> format_tabular_data [''id'', ''company_name'']
         [[SInt 1, SText ''Tech Corp''], [SInt 2, SText ''Data Inc''], [SInt 3, SNone]] 2 =
       Inr (''id | company_name'' @ nl @ ''-----------------'' @ nl
            @ ''1  | Tech Corp   '' @ nl @ ''2  | Data Inc    '' @ nl
            @ ''... and 1 more rows'')"
proof -
  let ?rows = "[[SInt 1, SText ''Tech Corp''], [SInt 2, SText ''Data Inc''], [SInt 3, SNone]]"
  let ?columns = "[''id'', ''company_name'']"
  have ne: "?rows \<noteq> []" by simp
  have rect: "\<forall>r \<in> set ?rows. length r = length ?columns" by simp
  have lim: "(0 :: int) \<le> 2" by simp
  have shown: "take (nat 2) ?rows = [[SInt 1, SText ''Tech Corp''], [SInt 2, SText ''Data Inc'']]"
    by simp
  have r: "list_all (\<lambda>r. length r = length ?columns) ?rows" by simp
  from format_tabular_data_rows [OF ne rect lim]
  have e: "\<exists>ws data.
         data = map (format_row ws) [[SInt 1, SText ''Tech Corp''], [SInt 2, SText ''Data Inc'']]
         \<and> length data = 2
         \<and> format_tabular_data ?columns ?rows 2 =
             Inr (table_header ws ?columns @ nl
                  @ replicate (length (table_header ws ?columns)) CHR ''-'' @ nl
                  @ join nl (data @ [''... and '' @ str_int 1 @ '' more rows'']))"
    unfolding shown by simp
  have v: "format_tabular_data ?columns ?rows 2 =
       Inr (''id | company_name'' @ nl @ ''-----------------'' @ nl
            @ ''1  | Tech Corp   '' @ nl @ ''2  | Data Inc    '' @ nl
            @ ''... and 1 more rows'')"
    by code_simp
  from ne r lim e v show ?thesis by (intro conjI)
qed

text \<open>
  C6. For every column list, rectangular row list and limit (a maximum number of rows,
  so not negative), the width of each column is the maximum of the header's length and
  of the formatted lengths of that column's values in the first limit rows; these are
  the widths of the rendered table, and a row list with the same first limit rows has
  the same widths, whatever its other rows hold.
\<close>

theorem table_widths_first_rows:
  assumes "\<forall>r \<in> set rows. length r = length columns" and "0 \<le> limit"
  shows "table_widths columns rows limit =
           Inr (map (width_spec columns (take (nat limit) rows)) [0..<length columns])
         \<and> (rows \<noteq> [] \<longrightarrow>
              format_tabular_data columns rows limit =
                Inr (let ws = map (width_spec columns (take (nat limit) rows)) [0..<length columns]
                     in table_header ws columns @ nl
                        @ replicate (length (table_header ws columns)) CHR ''-'' @ nl
                        @ join nl (map (format_row ws) (take (nat limit) rows)
                                   @ more_rows_line rows limit)))
         \<and> (\<forall>rows'. take (nat limit) rows' = take (nat limit) rows
                \<longrightarrow> table_widths columns rows' limit = table_widths columns rows limit)"
proof -
  let ?shown = "take (nat limit) rows"
  have sl: "slice_to rows limit = ?shown"
    using assms(2) by (rule slice_to_nonneg)
  have rect: "\<forall>r \<in> set ?shown. length r = length columns"
    using assms(1) by (auto dest: in_set_takeD)
  then have "\<forall>r \<in> set (slice_to rows limit). length r \<le> length columns"
    unfolding sl by simp
  from table_widths_fits [OF this] obtain ws where
    ws: "table_widths columns rows limit = Inr ws" "length ws = length columns"
      "\<forall>j < length columns.
         ws ! j = Max (insert (length (columns ! j))
                    ((\<lambda>r. length (format_value (r ! j))) ` {r \<in> set ?shown. j < length r}))"
    unfolding sl by blast
  have "ws ! j = width_spec columns ?shown j" if "j < length columns" for j
  proof -
    from rect that have "{r \<in> set ?shown. j < length r} = set ?shown"
      by auto
    with ws(3) that show ?thesis
      by (simp add: width_spec_def)
  qed
  then have eq: "ws = map (width_spec columns ?shown) [0..<length columns]"
    using ws(2) by (intro nth_equalityI) simp_all
  have a: "table_widths columns rows limit =
             Inr (map (width_spec columns ?shown) [0..<length columns])"
    using ws(1) eq by simp
  have b: "format_tabular_data columns rows limit =
             Inr (let ws = map (width_spec columns ?shown) [0..<length columns]
                  in table_header ws columns @ nl
                     @ replicate (length (table_header ws columns)) CHR ''-'' @ nl
                     @ join nl (map (format_row ws) ?shown @ more_rows_line rows limit))"
    if "rows \<noteq> []"
    using format_tabular_data_rendered [OF that a] unfolding sl Let_def .
  have c: "table_widths columns rows' limit = table_widths columns rows limit"
    if "take (nat limit) rows' = ?shown" for rows'
    using that assms(2) by (simp add: table_widths_def slice_to_nonneg)
  from a b c show ?thesis by blast
qed

theorem table_widths_first_rows_witness:
  "list_all (\<lambda>r. length r = length [''id'', ''name''])
     [[SInt 1, SText ''Ann''], [SInt 20, SNone], [SInt 300, SText ''Bartholomew'']]
   \<and> (0 :: int) \<le> 2
   \<and> table_widths [''id'', ''name'']
        [[SInt 1, SText ''Ann''], [SInt 20, SNone], [SInt 300, SText ''Bartholomew'']] 2
      = Inr (map (width_spec [''id'', ''name''] [[SInt 1, SText ''Ann''], [SInt 20, SNone]])
               [0..<length [''id'', ''name'']])
   \<and> table_widths [''id'', ''name'']
        [[SInt 1, SText ''Ann''], [SInt 20, SNone], [SInt 300, SText ''Bartholomew'']] 2
      = Inr [2, 4]"
proof -
  let ?rows = "[[SInt 1, SText ''Ann''], [SInt 20, SNone], [SInt 300, SText ''Bartholomew'']]"
  have rect: "\<forall>r \<in> set ?rows. length r = length [''id'', ''name'']" by simp
  have lim: "(0 :: int) \<le> 2" by simp
  have shown: "take (nat 2) ?rows = [[SInt 1, SText ''Ann''], [SInt 20, SNone]]"
    by simp
  have w: "table_widths [''id'', ''name''] ?rows 2
           = Inr (map (width_spec [''id'', ''name''] (take (nat 2) ?rows))
                    [0..<length [''id'', ''name'']])"
    using table_widths_first_rows [OF rect lim] by (rule conjunct1)
  have v: "table_widths [''id'', ''name''] ?rows 2 = Inr [2, 4]"
    by code_simp
  have r: "list_all (\<lambda>r. length r = length [''id'', ''name'']) ?rows"
    by simp
  from r lim w [unfolded shown] v show ?thesis
    by (intro conjI)
qed

section \<open>The count template\<close>

text \<open>
  C4. For every question and every non-empty row list whose first row is non-empty, the
  count template, with n the first cell of the first row and E the entity inferred from
  the question, returns "I found no E matching your criteria." when n equals 0, "There
  is 1 E' matching your criteria." with E' the entity without its last character when n
  equals 1, and "There are n E matching your criteria." otherwise. The question "How
  many users are there?" with the column count(*) and the row (42) classifies as count
  and yields "There are 42 users matching your criteria.".
\<close>

theorem generate_count_response_template:
  assumes "rows \<noteq> []" and "rows ! 0 \<noteq> []"
  shows "generate_count_response question columns rows =
           Inr (if eq_int (rows ! 0 ! 0) 0
                  then ''I found no '' @ extract_entity_name question
                       @ '' matching your criteria.''
                else if eq_int (rows ! 0 ! 0) 1
                  then ''There is 1 '' @ butlast (extract_entity_name question)
                       @ '' matching your criteria.''
                else ''There are '' @ format_value (rows ! 0 ! 0) @ '' ''
                     @ extract_entity_name question @ '' matching your criteria.'')
         \<and> identify_query_type ''How many users are there?'' [''count(*)''] [[SInt 42]]
             = ''count''
         \<and> generate_count_response ''How many users are there?'' [''count(*)''] [[SInt 42]]
             = Inr ''There are 42 users matching your criteria.''"
proof -
  from assms obtain n row rest where rows: "rows = (n # row) # rest"
    by (cases rows; cases "hd rows") auto
  have "generate_count_response question columns rows =
           Inr (if eq_int (rows ! 0 ! 0) 0
                  then ''I found no '' @ extract_entity_name question
                       @ '' matching your criteria.''
                else if eq_int (rows ! 0 ! 0) 1
                  then ''There is 1 '' @ butlast (extract_entity_name question)
                       @ '' matching your criteria.''
                else ''There are '' @ format_value (rows ! 0 ! 0) @ '' ''
                     @ extract_entity_name question @ '' matching your criteria.'')"
    unfolding rows generate_count_response_def Let_def by simp
  moreover have "identify_query_type ''How many users are there?'' [''count(*)''] [[SInt 42]]
             = ''count''"
    by code_simp
  moreover have "generate_count_response ''How many users are there?'' [''count(*)''] [[SInt 42]]
             = Inr ''There are 42 users matching your criteria.''"
    by code_simp
  ultimately show ?thesis by (intro conjI)
qed

theorem generate_count_response_template_witness:
  "[[SInt 1, SText ''x'']] \<noteq> [] \<and> [[SInt 1, SText ''x'']] ! 0 \<noteq> []
   \<and> generate_count_response ''Count the jobs at Tech Corp'' [''n'', ''note'']
        [[SInt 1, SText ''x'']]
      = Inr ''There is 1 internship matching your criteria.''"
proof -
  have ne: "[[SInt 1, SText ''x'']] \<noteq> []" and ne0: "[[SInt 1, SText ''x'']] ! 0 \<noteq> []"
    by simp_all
  have e: "extract_entity_name ''Count the jobs at Tech Corp'' = ''internships''"
    by code_simp
  show ?thesis
    using generate_count_response_template
            [OF ne ne0, of "''Count the jobs at Tech Corp''" "[''n'', ''note'']"]
    by (simp add: e)
qed

section \<open>Index safety of the dispatched templates\<close>

lemma identify_count_shape:
  assumes "identify_query_type question columns rows = ''count''"
  shows "length columns = 1 \<and> length rows = 1"
  using assms unfolding identify_query_type_def Let_def
  by (simp split: if_splits)

lemma identify_single_entity_shape:
  assumes "identify_query_type question columns rows = ''single_entity''"
  shows "length rows = 1"
  using assms unfolding identify_query_type_def Let_def
  by (simp split: if_splits)

lemma entity_details_returns:
  assumes "n + length columns \<le> length result"
  shows "\<exists>details. entity_details result (enumerate n columns) = Inr details"
  using assms
proof (induction columns arbitrary: n)
  case Nil
  then show ?case by simp
next
  case (Cons col columns)
  then have "Suc n + length columns \<le> length result" and "n < length result"
    by simp_all
  with Cons.IH [of "Suc n"] show ?case
    by auto
qed

lemma generate_count_response_returns:
  assumes "length rows = 1" and "length columns = 1"
    and "\<forall>r \<in> set rows. length r = length columns"
  shows "\<exists>text. generate_count_response question columns rows = Inr text"
proof -
  from assms(1) obtain row where rows: "rows = [row]"
    by (cases rows) auto
  with assms(2,3) obtain n where "row = [n]"
    by (cases row) auto
  with rows show ?thesis
    by (simp add: generate_count_response_def Let_def)
qed

lemma generate_single_entity_response_returns:
  assumes "length rows = 1" and "\<forall>r \<in> set rows. length r = length columns"
  shows "\<exists>text. generate_single_entity_response question columns rows = Inr text"
proof -
  from assms(1) obtain row where rows: "rows = [row]"
    by (cases rows) auto
  with assms(2) have "0 + length columns \<le> length row"
    by simp
  from entity_details_returns [OF this] obtain details
    where "entity_details row (enumerate 0 columns) = Inr details"
    by blast
  with rows show ?thesis
    by (simp add: generate_single_entity_response_def Let_def)
qed

lemma table_templates_return:
  assumes "\<forall>r \<in> set rows. length r = length columns"
  shows "\<exists>text. generate_list_response question columns rows = Inr text"
    and "\<exists>text. generate_aggregation_response question columns rows = Inr text"
    and "\<exists>text. generate_general_response question columns rows = Inr text"
proof -
  from format_tabular_data_returns [OF assms] obtain table
    where t: "format_tabular_data columns rows default_limit = Inr table"
    by blast
  show "\<exists>text. generate_list_response question columns rows = Inr text"
    by (simp add: generate_list_response_def Let_def t)
  show "\<exists>text. generate_aggregation_response question columns rows = Inr text"
    by (simp add: generate_aggregation_response_def Let_def t)
  show "\<exists>text. generate_general_response question columns rows = Inr text"
    by (simp add: generate_general_response_def Let_def t)
qed

lemma dispatch_returns:
  assumes "\<forall>r \<in> set rows. length r = length columns"
  shows "\<exists>text. dispatch question columns rows = Inr text"
proof -
  define query_type where "query_type = identify_query_type question columns rows"
  have d: "dispatch question columns rows =
             (if query_type = ''count'' then generate_count_response question columns rows
              else if query_type = ''list'' then generate_list_response question columns rows
              else if query_type = ''single_entity''
                then generate_single_entity_response question columns rows
              else if query_type = ''aggregation''
                then generate_aggregation_response question columns rows
              else generate_general_response question columns rows)"
    unfolding dispatch_def query_type_def Let_def by (rule refl)
  consider (count) "query_type = ''count''"
    | (list) "query_type \<noteq> ''count''" "query_type = ''list''"
    | (single) "query_type \<noteq> ''count''" "query_type \<noteq> ''list''" "query_type = ''single_entity''"
    | (agg) "query_type \<noteq> ''count''" "query_type \<noteq> ''list''"
        "query_type \<noteq> ''single_entity''" "query_type = ''aggregation''"
    | (general) "query_type \<noteq> ''count''" "query_type \<noteq> ''list''"
        "query_type \<noteq> ''single_entity''" "query_type \<noteq> ''aggregation''"
    by blast
  then show ?thesis
  proof cases
    case count
    then have "length columns = 1 \<and> length rows = 1"
      unfolding query_type_def by (rule identify_count_shape)
    then have "\<exists>text. generate_count_response question columns rows = Inr text"
      using assms by (intro generate_count_response_returns) simp_all
    with count show ?thesis unfolding d by simp
  next
    case list
    with table_templates_return(1) [OF assms, of question] show ?thesis
      unfolding d by simp
  next
    case single
    then have "length rows = 1"
      unfolding query_type_def by (intro identify_single_entity_shape)
    then have "\<exists>text. generate_single_entity_response question columns rows = Inr text"
      using assms by (intro generate_single_entity_response_returns) simp_all
    with single show ?thesis unfolding d by simp
  next
    case agg
    with table_templates_return(2) [OF assms, of question] show ?thesis
      unfolding d by simp
  next
    case general
    with table_templates_return(3) [OF assms, of question] show ?thesis
      unfolding d by simp
  qed
qed

text \<open>
  C10. When the classifier returns count the result has exactly one column and one row,
  and when it returns single\_entity it has exactly one row; so on a rectangular result
  the count template reads its first cell and the single-entity template reads one cell
  per column within bounds, and generate\_response returns an answer: the out-of-range
  error is not reached on any rectangular input.
\<close>

theorem generate_response_in_bounds:
  assumes "\<forall>r \<in> set rows. length r = length columns"
  shows "(identify_query_type question columns rows = ''count''
            \<longrightarrow> length columns = 1 \<and> length rows = 1
                \<and> (\<exists>text. generate_count_response question columns rows = Inr text))
         \<and> (identify_query_type question columns rows = ''single_entity''
            \<longrightarrow> length rows = 1
                \<and> (\<exists>text. generate_single_entity_response question columns rows = Inr text))
         \<and> (\<exists>answer. generate_response db question columns rows = Inr answer)"
proof (intro conjI impI)
  assume c: "identify_query_type question columns rows = ''count''"
  from identify_count_shape [OF c] show "length columns = 1" and "length rows = 1"
    by simp_all
  from identify_count_shape [OF c] assms
  show "\<exists>text. generate_count_response question columns rows = Inr text"
    by (intro generate_count_response_returns) simp_all
next
  assume s: "identify_query_type question columns rows = ''single_entity''"
  from identify_single_entity_shape [OF s] show "length rows = 1" .
  from identify_single_entity_shape [OF s] assms
  show "\<exists>text. generate_single_entity_response question columns rows = Inr text"
    by (intro generate_single_entity_response_returns) simp_all
next
  from dispatch_returns [OF assms, of question] obtain out
    where t: "dispatch question columns rows = Inr out"
    by blast
  then have cl: "classified question columns rows = Inr \<lparr>response = out, lookups = []\<rparr>"
    by (simp add: classified_def)
  show "\<exists>answer. generate_response db question columns rows = Inr answer"
  proof (cases "contains (lower question) ''details of''")
    case True
    from generate_response_details [OF True, of db columns rows] show ?thesis
      by blast
  next
    case False
    with cl show ?thesis
      by (simp add: generate_response_def)
  qed
qed

theorem generate_response_in_bounds_witness:
  "list_all (\<lambda>r. length r = length [''id'', ''internship_id'', ''company_name''])
     [[SInt 5, SText ''CS001'', SText ''Tech University'']]
   \<and> identify_query_type ''Give me information about the Computer Science internship''
        [''id'', ''internship_id'', ''company_name'']
        [[SInt 5, SText ''CS001'', SText ''Tech University'']] = ''single_entity''
   \<and> (\<exists>text. generate_single_entity_response
                ''Give me information about the Computer Science internship''
                [''id'', ''internship_id'', ''company_name'']
                [[SInt 5, SText ''CS001'', SText ''Tech University'']] = Inr text)
   \<and> (\<exists>answer. generate_response (\<lambda>u. NoUserRow)
                  ''Give me information about the Computer Science internship''
                  [''id'', ''internship_id'', ''company_name'']
                  [[SInt 5, SText ''CS001'', SText ''Tech University'']] = Inr answer)"
proof -
  let ?q = "''Give me information about the Computer Science internship''"
  let ?columns = "[''id'', ''internship_id'', ''company_name'']"
  let ?rows = "[[SInt 5, SText ''CS001'', SText ''Tech University'']]"
  have rect: "\<forall>r \<in> set ?rows. length r = length ?columns" by simp
  have ty: "identify_query_type ?q ?columns ?rows = ''single_entity''"
    by code_simp
  show ?thesis
    using generate_response_in_bounds [OF rect, of ?q "\<lambda>u. NoUserRow"] ty
    unfolding list_all_iff by simp
qed


end
